theory Spec2Isabelle
  imports Complex_Main "HOL-Library.Multiset"
begin

section \<open>Python strings\<close>

text \<open>
  A Python \<^verbatim>\<open>str\<close> is a sequence of Unicode code points; slicing, \<^verbatim>\<open>replace\<close> and
  \<^verbatim>\<open>strip\<close> count code points, not bytes.  A string is therefore a list of code
  points, and \<open>ascii\<close> embeds the literals of the source.
\<close>

type_synonym pystr = "nat list"

definition ascii :: "string \<Rightarrow> pystr" where
  "ascii s = map of_char s"

text \<open>The characters that \<^verbatim>\<open>str.strip()\<close> removes (\<^verbatim>\<open>str.isspace\<close>).\<close>

definition isspace :: "nat \<Rightarrow> bool" where
  "isspace c = (c \<in> set [9, 10, 11, 12, 13, 28, 29, 30, 31, 32, 133, 160, 5760,
      8192, 8193, 8194, 8195, 8196, 8197, 8198, 8199, 8200, 8201, 8202,
      8232, 8233, 8239, 8287, 12288])"

definition strip :: "pystr \<Rightarrow> pystr" where
  "strip s = rev (dropWhile isspace (rev (dropWhile isspace s)))"

text \<open>\<^verbatim>\<open>sep.join(xs)\<close>\<close>

fun join :: "pystr \<Rightarrow> pystr list \<Rightarrow> pystr" where
  "join sep [] = []"
| "join sep [x] = x"
| "join sep (x # y # ys) = x @ sep @ join sep (y # ys)"

text \<open>\<^verbatim>\<open>s.replace(old, new)\<close> for one-character \<open>old\<close> and \<open>new\<close>.\<close>

definition replace :: "nat \<Rightarrow> nat \<Rightarrow> pystr \<Rightarrow> pystr" where
  "replace old new s = map (\<lambda>c. if c = old then new else c) s"

text \<open>The decimal digits of a natural number, and \<^verbatim>\<open>f'{n}'\<close> for a Python int.\<close>

fun digits :: "nat \<Rightarrow> pystr" where
  "digits n = (if n < 10 then [48 + n] else digits (n div 10) @ [48 + n mod 10])"

declare digits.simps [simp del]

definition format_int :: "int \<Rightarrow> pystr" where
  "format_int i = (if i < 0 then 45 # digits (nat (- i)) else digits (nat i))"

text \<open>\<^verbatim>\<open>os.path.join(a, b)\<close> of \<^verbatim>\<open>posixpath\<close>, for two components.\<close>

definition os_path_join :: "pystr \<Rightarrow> pystr \<Rightarrow> pystr" where
  "os_path_join a b =
     (if b \<noteq> [] \<and> hd b = 47 then b
      else if a = [] \<or> last a = 47 then a @ b
      else a @ [47] @ b)"

text \<open>
  What Python refuses to encode.  A file opened with \<^verbatim>\<open>encoding='utf-8'\<close> writes no
  surrogate (\<open>U+D800\<close> to \<open>U+DFFF\<close>).  A file name is encoded with the file system
  encoding, UTF-8 with \<^verbatim>\<open>surrogateescape\<close> on POSIX, which takes the surrogates \<open>U+DC80\<close> to
  \<open>U+DCFF\<close> and no other.
\<close>

definition surrogate :: "nat \<Rightarrow> bool" where
  "surrogate c = (55296 \<le> c \<and> c \<le> 57343)"

definition utf8_encodable :: "pystr \<Rightarrow> bool" where
  "utf8_encodable s = list_all (\<lambda>c. \<not> surrogate c) s"

definition fs_encodable :: "pystr \<Rightarrow> bool" where
  "fs_encodable s = list_all (\<lambda>c. \<not> surrogate c \<or> (56448 \<le> c \<and> c \<le> 56575)) s"


section \<open>Configuration\<close>

definition ARTICLES_PATH :: pystr where
  "ARTICLES_PATH = ascii ''articles''"

definition NUM_WORKERS :: nat where
  "NUM_WORKERS = 5"


section \<open>Documents, responses and the state of the outside world\<close>

text \<open>
  The parsed page, as the queries of \<^verbatim>\<open>scrape_article\<close> see it.  Each field is the result
  of one \<^verbatim>\<open>soup.find\<close> / \<^verbatim>\<open>find_all\<close> call of the source:
  \<^item> \<open>headline_tag\<close>: the first \<^verbatim>\<open>h1.page-post-title\<close>, as its \<^verbatim>\<open>get_text(strip=True)\<close>,
    or \<open>None\<close> when \<^verbatim>\<open>find\<close> returns \<^verbatim>\<open>None\<close>;
  \<^item> \<open>time_tag\<close>, \<open>source_tag\<close>: likewise for the \<^verbatim>\<open>time\<close> and \<^verbatim>\<open>h4\<close> elements;
  \<^item> \<open>breadcrumb\<close>: \<open>None\<close> when there is no \<^verbatim>\<open>ol.breadcrumb\<close>; otherwise the list
    \<^verbatim>\<open>breadcrumb.find_all('li')\<close>, each item given as the stripped text of its first
    \<^verbatim>\<open>a\<close> element (\<open>None\<close> when the item has no link);
  \<^item> \<open>article_tags\<close>: for every \<^verbatim>\<open>div\<close> of class \<^verbatim>\<open>p-4 bg-white\<close>, in document order, its
    \<^verbatim>\<open>get_text(separator='\n', strip=True)\<close> after the nested \<^verbatim>\<open>div.p-3\<close> blocks are
    decomposed.
\<close>

record document =
  headline_tag :: "pystr option"
  time_tag :: "pystr option"
  breadcrumb :: "pystr option list option"
  source_tag :: "pystr option"
  article_tags :: "pystr list"

text \<open>
  What \<^verbatim>\<open>session.get(article_url)\<close> does: it raises a
  \<^verbatim>\<open>requests.exceptions.RequestException\<close> (connection failure, timeout), or it returns a
  response with a status code and a body.
\<close>

datatype fetched = ConnectionFailed | Response int document

datatype exn =
    RequestException
  | IndexError
  | UnicodeEncodeError
  | ValueError
  | OSError
  | OverflowError
  | OperationalError
  | IntegrityError
  | ZeroDivisionError
  | RetryError

datatype outcome = Returned | Raised exn

text \<open>The lines the program prints; the argument is the post id.\<close>

datatype msg =
    NoContentFound int
  | NoHeadlineOrContent int
  | SavedArticle int
  | ErrorInScraping int
  | ResponseContent int
  | ResponseHeaders int

text \<open>
  The observable effects, in the order they happen: an HTTP GET for a post id, a printed
  line, and a sleep of the retry wrapper (in seconds).
\<close>

datatype event = HttpGet int | Print msg | Sleep nat

record article_row =
  row_headline :: pystr
  row_published :: pystr
  row_category :: pystr
  row_source :: pystr
  row_content :: pystr

text \<open>
  The world outside the program:
  \<^item> \<open>dirs\<close> and \<open>files\<close>: the directories and the files on disk;
  \<^item> \<open>refused\<close>: the paths that the operating system refuses to create (no permission, no
    space, a name that is too long); a file that is opened is taken to be written and
    closed without an error of the operating system;
  \<^item> \<open>articles\<close>: the rows of the \<^verbatim>\<open>articles\<close> table, keyed by \<^verbatim>\<open>id INTEGER PRIMARY KEY\<close>;
  \<^item> \<open>db_locked\<close>: a connection that a failed \<^verbatim>\<open>INSERT\<close> has left open holds the write
    lock of the database.  The program never closes such a connection (\<^verbatim>\<open>conn.close()\<close>
    is skipped when \<^verbatim>\<open>cursor.execute\<close> raises), so no step of the program releases the
    lock, and the model keeps it once it is taken;
  \<^item> \<open>trace\<close>: the effects so far.
\<close>

record world =
  dirs :: "pystr set"
  files :: "pystr \<rightharpoonup> pystr"
  refused :: "pystr set"
  articles :: "int \<rightharpoonup> article_row"
  db_locked :: bool
  trace :: "event list"

definition emit :: "event list \<Rightarrow> world \<Rightarrow> world" where
  "emit es w = w\<lparr>trace := trace w @ es\<rparr>"

section \<open>The body of \<^verbatim>\<open>scrape_article\<close>\<close>

text \<open>\<^verbatim>\<open>response.raise_for_status()\<close> raises \<^verbatim>\<open>HTTPError\<close> for 4xx and 5xx.\<close>

definition raise_for_status :: "int \<Rightarrow> bool" where
  "raise_for_status status_code = (400 \<le> status_code \<and> status_code < 600)"

text \<open>
  Lines 84 to 89.  \<^verbatim>\<open>breadcrumb.find_all('li')[-1]\<close> raises \<^verbatim>\<open>IndexError\<close> on an empty
  list.
\<close>

definition extract_category :: "document \<Rightarrow> exn + pystr" where
  "extract_category soup =
     (case breadcrumb soup of
        None \<Rightarrow> Inr (ascii ''No Category'')
      | Some lis \<Rightarrow>
          (case lis of
             [] \<Rightarrow> Inl IndexError
           | _ # _ \<Rightarrow>
               (case last lis of
                  None \<Rightarrow> Inr (ascii ''No Category'')
                | Some category_link \<Rightarrow> Inr category_link)))"

text \<open>Line 105: the bucket directory.\<close>

definition directory_of :: "int \<Rightarrow> pystr" where
  "directory_of post_id =
     os_path_join ARTICLES_PATH
       (format_int (post_id div 10000 * 10000) @ ascii ''-'' @
        format_int ((post_id div 10000 + 1) * 10000 - 1))"

text \<open>Lines 108 and 109.\<close>

definition filename_of :: "int \<Rightarrow> pystr \<Rightarrow> pystr" where
  "filename_of post_id headline =
     format_int post_id @ ascii ''_'' @ replace 47 45 (take 50 headline) @ ascii ''.txt''"

definition filepath_of :: "int \<Rightarrow> pystr \<Rightarrow> pystr" where
  "filepath_of post_id headline = os_path_join (directory_of post_id) (filename_of post_id headline)"

text \<open>
  Lines 111 to 115: the arguments of the five \<^verbatim>\<open>f.write\<close> calls, and the text they make
  together.
\<close>

definition file_chunks :: "article_row \<Rightarrow> pystr list" where
  "file_chunks r =
     [ascii ''Title: '' @ row_headline r @ [10],
      ascii ''Published: '' @ row_published r @ [10],
      ascii ''Category: '' @ row_category r @ [10],
      ascii ''Source: '' @ row_source r @ [10, 10],
      row_content r]"

definition file_text :: "article_row \<Rightarrow> pystr" where
  "file_text r =
     ascii ''Title: '' @ row_headline r @ [10] @
     ascii ''Published: '' @ row_published r @ [10] @
     ascii ''Category: '' @ row_category r @ [10] @
     ascii ''Source: '' @ row_source r @ [10, 10] @
     row_content r"

text \<open>
  \<^verbatim>\<open>sqlite3\<close> binds a Python int only if it fits a signed 64-bit integer; otherwise
  \<^verbatim>\<open>cursor.execute\<close> raises \<^verbatim>\<open>OverflowError\<close>.
\<close>

definition sqlite_int :: "int \<Rightarrow> bool" where
  "sqlite_int i = (- (2 ^ 63) \<le> i \<and> i < 2 ^ 63)"

text \<open>
  Lines 104 to 126, entered when \<^verbatim>\<open>article_content.strip()\<close> is non-empty, with every
  place where the block can raise:
  \<^item> lines 106 and 107 create the bucket directory if it is missing (\<^verbatim>\<open>OSError\<close> when the
    operating system refuses);
  \<^item> line 110 opens the file for writing, which empties a file that exists.  \<^verbatim>\<open>open\<close>
    encodes the name first (\<^verbatim>\<open>UnicodeEncodeError\<close>), then refuses a NUL character in it
    (\<^verbatim>\<open>ValueError\<close>), then asks the operating system (\<^verbatim>\<open>OSError\<close>);
  \<^item> lines 111 to 115 write five strings.  A string with a surrogate raises
    \<^verbatim>\<open>UnicodeEncodeError\<close>; leaving the \<^verbatim>\<open>with\<close> block closes the file, which then holds the
    strings written before;
  \<^item> line 116 prints;
  \<^item> lines 119 to 126 open a connection and \<^verbatim>\<open>INSERT\<close> the row.  \<^verbatim>\<open>cursor.execute\<close> binds
    the parameters first (\<^verbatim>\<open>OverflowError\<close> for an id outside 64 bits), then needs the
    write lock (\<^verbatim>\<open>OperationalError\<close>, database is locked, when a connection left open
    holds it), then inserts (\<^verbatim>\<open>IntegrityError\<close> on an existing primary key, as the
    \<^verbatim>\<open>INSERT\<close> has no conflict clause).  Nothing is committed when it raises, and the
    connection is not closed; after \<^verbatim>\<open>IntegrityError\<close> it holds the write lock.  The
    five text values need no check of their own: a string that \<^verbatim>\<open>sqlite3\<close> cannot encode
    holds a surrogate and has raised at its \<^verbatim>\<open>f.write\<close>.  The database file itself is
    taken to be usable, as \<^verbatim>\<open>init_database\<close> has left it.
\<close>

definition persist :: "int \<Rightarrow> article_row \<Rightarrow> world \<Rightarrow> outcome \<times> world" where
  "persist post_id r w =
     (let directory = directory_of post_id in
      if directory \<notin> dirs w \<and> directory \<in> refused w then (Raised OSError, w)
      else
        let w1 = (if directory \<notin> dirs w then w\<lparr>dirs := insert directory (dirs w)\<rparr> else w);
            filepath = os_path_join directory (filename_of post_id (row_headline r))
        in if \<not> fs_encodable filepath then (Raised UnicodeEncodeError, w1)
           else if 0 \<in> set filepath then (Raised ValueError, w1)
           else if filepath \<in> refused w1 then (Raised OSError, w1)
           else
             let written = takeWhile utf8_encodable (file_chunks r);
                 w2 = w1\<lparr>files := (files w1)(filepath \<mapsto> concat written)\<rparr>
             in if written \<noteq> file_chunks r then (Raised UnicodeEncodeError, w2)
                else
                  let w3 = emit [Print (SavedArticle post_id)] w2
                  in if \<not> sqlite_int post_id then (Raised OverflowError, w3)
                     else if db_locked w3 then (Raised OperationalError, w3)
                     else if post_id \<in> dom (articles w3) then
                       (Raised IntegrityError, w3\<lparr>db_locked := True\<rparr>)
                     else (Returned, w3\<lparr>articles := (articles w3)(post_id \<mapsto> r)\<rparr>))"

text \<open>
  One call of the undecorated function (what the retry wrapper calls \<^verbatim>\<open>fn\<close>), given what
  \<^verbatim>\<open>session.get\<close> does this time.  Only a \<^verbatim>\<open>RequestException\<close> is caught, printed and
  re-raised (lines 128 to 133); any other exception leaves the function as it is.
\<close>

definition scrape_article_fn :: "int \<Rightarrow> fetched \<Rightarrow> world \<Rightarrow> outcome \<times> world" where
  "scrape_article_fn post_id got w0 =
     (let w = emit [HttpGet post_id] w0 in
      case got of
        ConnectionFailed \<Rightarrow>
          (Raised RequestException, emit [Print (ErrorInScraping post_id)] w)
      | Response status_code soup \<Rightarrow>
          if status_code = 404 then (Returned, emit [Print (NoContentFound post_id)] w)
          else if raise_for_status status_code then
            (Raised RequestException,
             emit [Print (ErrorInScraping post_id), Print (ResponseContent post_id),
                   Print (ResponseHeaders post_id)] w)
          else
            (case headline_tag soup of
               None \<Rightarrow> (Returned, emit [Print (NoHeadlineOrContent post_id)] w)
             | Some headline \<Rightarrow>
                 (let time_text = (case time_tag soup of Some t \<Rightarrow> t | None \<Rightarrow> ascii ''No Date'')
                  in case extract_category soup of
                       Inl e \<Rightarrow> (Raised e, w)
                     | Inr category \<Rightarrow>
                         (let source_text =
                                (case source_tag soup of Some s \<Rightarrow> s | None \<Rightarrow> ascii ''No Source'');
                              article_content = join [10] (article_tags soup)
                          in if strip article_content \<noteq> [] then
                               persist post_id
                                 \<lparr>row_headline = headline, row_published = time_text,
                                  row_category = category, row_source = source_text,
                                  row_content = article_content\<rparr> w
                             else (Returned, w)))))"

section \<open>The retry decorator\<close>

text \<open>
  \<^verbatim>\<open>@retry(stop=stop_after_attempt(3), wait=wait_exponential(multiplier=1, min=4, max=10))\<close>.
  No \<^verbatim>\<open>retry=\<close> argument is given, so the wrapper retries on every exception; no
  \<^verbatim>\<open>reraise=True\<close> is given, so giving up raises \<^verbatim>\<open>RetryError\<close>.
\<close>

definition stop_after_attempt :: "nat \<Rightarrow> nat \<Rightarrow> bool" where
  "stop_after_attempt max_attempt_number attempt_number = (attempt_number \<ge> max_attempt_number)"

definition wait_exponential :: "nat \<Rightarrow> nat \<Rightarrow> nat \<Rightarrow> nat \<Rightarrow> nat" where
  "wait_exponential multiplier mn mx attempt_number =
     max (max 0 mn) (min (multiplier * 2 ^ (attempt_number - 1)) mx)"

text \<open>
  The loop of the wrapper, from attempt \<open>attempt_number\<close> on; \<open>net n\<close> is what
  \<^verbatim>\<open>session.get\<close> does at the \<open>n\<close>-th attempt.
\<close>

function retry_loop :: "(nat \<Rightarrow> fetched) \<Rightarrow> int \<Rightarrow> nat \<Rightarrow> world \<Rightarrow> outcome \<times> world" where
  "retry_loop net post_id attempt_number w =
     (case scrape_article_fn post_id (net attempt_number) w of
        (Returned, w') \<Rightarrow> (Returned, w')
      | (Raised e, w') \<Rightarrow>
          if stop_after_attempt 3 attempt_number then (Raised RetryError, w')
          else retry_loop net post_id (attempt_number + 1)
                 (emit [Sleep (wait_exponential 1 4 10 attempt_number)] w'))"
  by pat_completeness auto
termination
  by (relation "measure (\<lambda>(net, post_id, attempt_number, w). 3 - attempt_number)")
     (auto simp: stop_after_attempt_def)

declare retry_loop.simps [simp del]

definition scrape_article :: "(nat \<Rightarrow> fetched) \<Rightarrow> int \<Rightarrow> world \<Rightarrow> outcome \<times> world" where
  "scrape_article net post_id w = retry_loop net post_id 1 w"

section \<open>Reading traces and responses\<close>






text \<open>
  A response that takes \<^verbatim>\<open>scrape_article\<close> to its persistence block: a status that is
  neither 404 nor an error, a headline, a breadcrumb that is absent or has an item, and
  content that is not blank.
\<close>

fun persistable :: "fetched \<Rightarrow> bool" where
  "persistable ConnectionFailed = False"
| "persistable (Response status_code soup) =
     (status_code \<noteq> 404 \<and> \<not> raise_for_status status_code \<and> headline_tag soup \<noteq> None \<and>
      breadcrumb soup \<noteq> Some [] \<and> strip (join [10] (article_tags soup)) \<noteq> [])"

text \<open>
  The row that lines 78 to 101 build from a page that has a headline and whose
  breadcrumb, if there is one, has an item.
\<close>

definition row_of :: "document \<Rightarrow> article_row" where
  "row_of soup =
     \<lparr>row_headline = (case headline_tag soup of Some h \<Rightarrow> h | None \<Rightarrow> []),
      row_published = (case time_tag soup of Some t \<Rightarrow> t | None \<Rightarrow> ascii ''No Date''),
      row_category =
        (case breadcrumb soup of
           None \<Rightarrow> ascii ''No Category''
         | Some lis \<Rightarrow> (case last lis of None \<Rightarrow> ascii ''No Category'' | Some c \<Rightarrow> c)),
      row_source = (case source_tag soup of Some s \<Rightarrow> s | None \<Rightarrow> ascii ''No Source''),
      row_content = join [10] (article_tags soup)\<rparr>"

text \<open>
  What the file write of the persistence block needs: the operating system accepts the
  bucket directory and the file, the first 50 characters of the headline can be encoded
  as a file name and hold no NUL, and the five fields hold no surrogate.
\<close>

definition writable :: "int \<Rightarrow> article_row \<Rightarrow> world \<Rightarrow> bool" where
  "writable post_id r w =
     ((directory_of post_id \<in> dirs w \<or> directory_of post_id \<notin> refused w) \<and>
      filepath_of post_id (row_headline r) \<notin> refused w \<and>
      fs_encodable (take 50 (row_headline r)) \<and> 0 \<notin> set (take 50 (row_headline r)) \<and>
      utf8_encodable (row_headline r) \<and> utf8_encodable (row_published r) \<and>
      utf8_encodable (row_category r) \<and> utf8_encodable (row_source r) \<and>
      utf8_encodable (row_content r))"

section \<open>The rate limiter\<close>






section \<open>The worker pool\<close>

text \<open>
  Where a worker thread stands in \<^verbatim>\<open>worker\<close>: about to test
  \<^verbatim>\<open>post_queue.empty()\<close>; past the test and about to call \<^verbatim>\<open>post_queue.get()\<close>; holding
  a post id it has taken, up to the end of the loop body; returned; or ended by an
  exception, which \<^verbatim>\<open>worker\<close> does not catch.
\<close>

datatype thread = AtWhile | AtGet | AtScrape int | Finished | Crashed exn

text \<open>
  The shared queue, the threads of the executor, and the world.  \<open>handled\<close> is kept by the
  model alone: the calls of \<^verbatim>\<open>scrape_article\<close> that have ended, in order, each with its
  outcome.  The program itself records no status of an item.
\<close>

record pool =
  post_queue :: "int list"
  threads :: "thread list"
  handled :: "(int \<times> outcome) list"
  outside :: world

text \<open>
  One atomic step of thread \<open>i\<close>; \<open>network post_id n\<close> is what the \<open>n\<close>-th GET for
  \<open>post_id\<close> does.  \<^verbatim>\<open>Queue.empty\<close> and \<^verbatim>\<open>Queue.get\<close> are each atomic, but the test and
  the get are two steps.  \<^verbatim>\<open>Queue.get()\<close> blocks while the queue is empty, so a thread
  at \<open>AtGet\<close> with an empty queue does not move.  The rate limiter and the sleeps only
  pass time here (\<open>RATE_LIMIT\<close> is not 0, so \<^verbatim>\<open>rate_limiter.wait()\<close> raises nothing) and
  are left out.  One call of \<^verbatim>\<open>scrape_article\<close>, with its retries, is one step: the
  model does not interleave the calls of two threads.  The calls act on each other
  through the world they share: a write lock that one call leaves makes the \<^verbatim>\<open>INSERT\<close> of
  every later call raise, in whichever thread.
\<close>

definition worker_step :: "(int \<Rightarrow> nat \<Rightarrow> fetched) \<Rightarrow> nat \<Rightarrow> pool \<Rightarrow> pool" where
  "worker_step network i s =
     (if i \<ge> length (threads s) then s
      else case threads s ! i of
        AtWhile \<Rightarrow>
          (if post_queue s = [] then s\<lparr>threads := (threads s)[i := Finished]\<rparr>
           else s\<lparr>threads := (threads s)[i := AtGet]\<rparr>)
      | AtGet \<Rightarrow>
          (case post_queue s of
             [] \<Rightarrow> s
           | post_id # rest \<Rightarrow>
               s\<lparr>post_queue := rest, threads := (threads s)[i := AtScrape post_id]\<rparr>)
      | AtScrape post_id \<Rightarrow>
          (case scrape_article (network post_id) post_id (outside s) of
             (Returned, w') \<Rightarrow>
               s\<lparr>threads := (threads s)[i := AtWhile],
                 handled := handled s @ [(post_id, Returned)], outside := w'\<rparr>
           | (Raised e, w') \<Rightarrow>
               s\<lparr>threads := (threads s)[i := Crashed e],
                 handled := handled s @ [(post_id, Raised e)], outside := w'\<rparr>)
      | Finished \<Rightarrow> s
      | Crashed e \<Rightarrow> s)"

text \<open>A run under a schedule: the list of the threads that move, in order.\<close>

fun run :: "(int \<Rightarrow> nat \<Rightarrow> fetched) \<Rightarrow> nat list \<Rightarrow> pool \<Rightarrow> pool" where
  "run network [] s = s"
| "run network (i # sched) s = run network sched (worker_step network i s)"

text \<open>
  \<^verbatim>\<open>scrape_all_articles(start_id, end_id)\<close> up to the point where the executor has its
  \<open>NUM_WORKERS\<close> tasks: the queue holds \<^verbatim>\<open>range(start_id, end_id + 1)\<close>.
\<close>

definition seeded :: "int \<Rightarrow> int \<Rightarrow> world \<Rightarrow> pool" where
  "seeded start_id end_id w =
     \<lparr>post_queue = [start_id..end_id], threads = replicate NUM_WORKERS AtWhile,
      handled = [], outside = w\<rparr>"

fun ended :: "thread \<Rightarrow> bool" where
  "ended Finished = True"
| "ended (Crashed _) = True"
| "ended _ = False"

fun crashed :: "thread \<Rightarrow> bool" where
  "crashed (Crashed _) = True"
| "crashed _ = False"

fun failed :: "int \<times> outcome \<Rightarrow> bool" where
  "failed (_, Raised _) = True"
| "failed (_, Returned) = False"

text \<open>The post ids that threads hold at the moment.\<close>

fun scraping :: "thread list \<Rightarrow> int list" where
  "scraping [] = []"
| "scraping (AtScrape post_id # ts) = post_id # scraping ts"
| "scraping (_ # ts) = scraping ts"

text \<open>
  What the call of \<^verbatim>\<open>scrape_all_articles\<close> does once every thread has ended (lines 155 and
  156 and the exit of the \<^verbatim>\<open>with\<close> blocks): \<^verbatim>\<open>future.result()\<close> re-raises the exception
  of the first worker that ended with one; otherwise the function falls off its end and
  returns \<^verbatim>\<open>None\<close>.  While a thread has not ended, the call has not returned (\<open>None\<close>
  here).
\<close>

definition scrape_all_articles :: "pool \<Rightarrow> outcome option" where
  "scrape_all_articles s =
     (if list_all ended (threads s) then
        (case filter failed (handled s) of
           [] \<Rightarrow> Some Returned
         | (_, r) # _ \<Rightarrow> Some r)
      else None)"

text \<open>A thread that can take no step although it has not ended: it waits in \<^verbatim>\<open>get\<close>.\<close>

definition blocked :: "pool \<Rightarrow> nat \<Rightarrow> bool" where
  "blocked s i = (i < length (threads s) \<and> threads s ! i = AtGet \<and> post_queue s = [])"

text \<open>
  Where the post ids are: in the queue, held by a thread, or handled.
\<close>

definition ids_of :: "pool \<Rightarrow> int multiset" where
  "ids_of s = mset (post_queue s) + mset (scraping (threads s)) + mset (map fst (handled s))"

text \<open>The message's post id.\<close>

fun msg_id :: "msg \<Rightarrow> int" where
  "msg_id (NoContentFound i) = i"
| "msg_id (NoHeadlineOrContent i) = i"
| "msg_id (SavedArticle i) = i"
| "msg_id (ErrorInScraping i) = i"
| "msg_id (ResponseContent i) = i"
| "msg_id (ResponseHeaders i) = i"

section \<open>Example inputs\<close>

text \<open>An empty disk and table, and nothing done yet.\<close>

definition empty_world :: world where
  "empty_world =
     \<lparr>dirs = {}, files = Map.empty, refused = {}, articles = Map.empty, db_locked = False,
      trace = []\<rparr>"

text \<open>
  Example B of the specification: headline \<open>X\<close>, breadcrumb \<open>News\<close>, \<open>Politics\<close>, and the
  two content blocks \<open>A\<close> and \<open>B\<close>; no \<^verbatim>\<open>time\<close> and no source element.
\<close>

definition page_B :: document where
  "page_B =
     \<lparr>headline_tag = Some (ascii ''X''), time_tag = None,
      breadcrumb = Some [Some (ascii ''News''), Some (ascii ''Politics'')],
      source_tag = None, article_tags = [ascii ''A'', ascii ''B'']\<rparr>"

text \<open>A page with a breadcrumb list that has no items, and no headline element.\<close>

definition page_no_headline :: document where
  "page_no_headline =
     \<lparr>headline_tag = None, time_tag = None, breadcrumb = Some [], source_tag = None,
      article_tags = [ascii ''A'']\<rparr>"

text \<open>A page with a headline, content, and a breadcrumb list that has no items.\<close>

definition page_empty_breadcrumb :: document where
  "page_empty_breadcrumb =
     \<lparr>headline_tag = Some (ascii ''X''), time_tag = None, breadcrumb = Some [], source_tag = None,
      article_tags = [ascii ''A'']\<rparr>"






text \<open>
  For all posts: every request fails to connect; every request is answered with the page
  of Example B; every request is answered with 404.
\<close>

definition network_down :: "int \<Rightarrow> nat \<Rightarrow> fetched" where
  "network_down post_id n = ConnectionFailed"

definition network_B :: "int \<Rightarrow> nat \<Rightarrow> fetched" where
  "network_B post_id n = Response 200 page_B"

definition network_404 :: "int \<Rightarrow> nat \<Rightarrow> fetched" where
  "network_404 post_id n = Response 404 page_B"



text \<open>
  Schedules.  In \<open>each_thread_once\<close> every thread in turn tests the queue, takes a post id
  and scrapes it.  In \<open>first_thread_all\<close> thread 0 does this twice and then finds the queue
  empty, and the other threads find it empty at once; \<open>first_thread_one\<close> is the same for a
  queue of one post id.
\<close>

definition each_thread_once :: "nat list" where
  "each_thread_once = [0, 0, 0, 1, 1, 1, 2, 2, 2, 3, 3, 3, 4, 4, 4]"

definition first_thread_all :: "nat list" where
  "first_thread_all = [0, 0, 0, 0, 0, 0, 0, 1, 2, 3, 4]"

definition first_thread_one :: "nat list" where
  "first_thread_one = [0, 0, 0, 0, 1, 2, 3, 4]"

section \<open>Strings and paths\<close>

lemma digits_ne: "digits n \<noteq> []"
  by (subst digits.simps) simp

lemma digits_range: "c \<in> set (digits n) \<Longrightarrow> 48 \<le> c \<and> c \<le> 57"
proof (induction n arbitrary: c rule: digits.induct)
  case (1 n)
  show ?case
  proof (cases "n < 10")
    case True
    with "1.prems" show ?thesis by (simp add: digits.simps [of n])
  next
    case False
    with "1.prems" have "c \<in> set (digits (n div 10)) \<or> c = 48 + n mod 10"
      by (auto simp: digits.simps [of n])
    then show ?thesis
    proof
      assume "c \<in> set (digits (n div 10))"
      with False "1.IH" show ?thesis by blast
    next
      assume "c = 48 + n mod 10"
      then show ?thesis by simp
    qed
  qed
qed

lemma format_int_ne: "format_int i \<noteq> []"
  by (simp add: format_int_def digits_ne)

lemma format_int_hd: "hd (format_int i) \<noteq> 47"
proof (cases "i < 0")
  case True
  then show ?thesis by (simp add: format_int_def)
next
  case False
  have "hd (digits (nat i)) \<in> set (digits (nat i))"
    by (simp add: digits_ne)
  then have "48 \<le> hd (digits (nat i))"
    using digits_range by blast
  with False show ?thesis by (simp add: format_int_def)
qed

lemma format_int_last: "last (format_int i) \<noteq> 47"
proof -
  have "last (format_int i) \<in> set (digits (nat (- i))) \<or> last (format_int i) \<in> set (digits (nat i))"
    by (simp add: format_int_def digits_ne)
  then have "48 \<le> last (format_int i)"
    using digits_range by blast
  then show ?thesis by simp
qed

lemma ARTICLES_PATH_ok: "ARTICLES_PATH \<noteq> [] \<and> last ARTICLES_PATH \<noteq> 47"
  by (simp add: ARTICLES_PATH_def ascii_def)

lemma directory_of_eq:
  "directory_of post_id =
     ascii ''articles'' @ ascii ''/'' @ format_int (post_id div 10000 * 10000) @ ascii ''-'' @
     format_int (post_id div 10000 * 10000 + 9999)"
proof -
  let ?lo = "post_id div 10000 * 10000"
  have hi: "(post_id div 10000 + 1) * 10000 - 1 = ?lo + 9999"
    by (simp add: algebra_simps)
  have "hd (format_int ?lo @ x) \<noteq> 47" "format_int ?lo @ x \<noteq> []" for x
    using format_int_hd [of ?lo] format_int_ne [of ?lo] by simp_all
  then have "os_path_join ARTICLES_PATH (format_int ?lo @ x) = ARTICLES_PATH @ [47] @ format_int ?lo @ x" for x
    using ARTICLES_PATH_ok by (simp add: os_path_join_def)
  then show ?thesis
    unfolding directory_of_def hi by (simp add: ARTICLES_PATH_def ascii_def)
qed

lemma filepath_of_eq:
  "filepath_of post_id h =
     directory_of post_id @ ascii ''/'' @ format_int post_id @ ascii ''_'' @
     replace 47 45 (take 50 h) @ ascii ''.txt''"
proof -
  have "hd (filename_of post_id h) \<noteq> 47" "filename_of post_id h \<noteq> []"
    using format_int_hd [of post_id] format_int_ne [of post_id]
    by (simp_all add: filename_of_def)
  moreover have "directory_of post_id \<noteq> []" "last (directory_of post_id) \<noteq> 47"
    using format_int_last [of "post_id div 10000 * 10000 + 9999"]
    by (simp_all add: directory_of_eq format_int_ne ascii_def)
  ultimately show ?thesis
    by (simp add: filepath_of_def os_path_join_def) (simp add: filename_of_def ascii_def)
qed



lemma surrogate_ascii: "c < 128 \<Longrightarrow> \<not> surrogate c"
  by (simp add: surrogate_def)

lemma utf8_encodable_append [simp]:
  "utf8_encodable (a @ b) = (utf8_encodable a \<and> utf8_encodable b)"
  by (simp add: utf8_encodable_def)

lemma fs_encodable_append [simp]:
  "fs_encodable (a @ b) = (fs_encodable a \<and> fs_encodable b)"
  by (simp add: fs_encodable_def)

lemma low_encodable:
  assumes "\<forall>c \<in> set s. c < 128"
  shows "utf8_encodable s" "fs_encodable s"
  using assms by (simp_all add: utf8_encodable_def fs_encodable_def list_all_iff surrogate_ascii)

lemma format_int_low: "c \<in> set (format_int i) \<Longrightarrow> 0 < c \<and> c < 128"
proof -
  assume "c \<in> set (format_int i)"
  then have "c = 45 \<or> c \<in> set (digits (nat (- i))) \<or> c \<in> set (digits (nat i))"
    by (auto simp: format_int_def split: if_splits)
  then show ?thesis
    using digits_range [of c] by fastforce
qed

lemma format_int_encodable: "fs_encodable (format_int i)" "0 \<notin> set (format_int i)"
proof -
  show "fs_encodable (format_int i)"
    by (rule low_encodable) (use format_int_low in blast)
  show "0 \<notin> set (format_int i)"
    using format_int_low [of 0 i] by blast
qed

lemma replace_encodable: "fs_encodable (replace 47 45 s) = fs_encodable s"
  by (induction s) (simp_all add: replace_def fs_encodable_def surrogate_def)

lemma replace_nul: "(0 \<in> set (replace 47 45 s)) = (0 \<in> set s)"
  by (induction s) (simp_all add: replace_def)

lemma filepath_parts:
  "filepath_of post_id h =
     (ARTICLES_PATH @ ascii ''/'' @ format_int (post_id div 10000 * 10000) @ ascii ''-'' @
      format_int (post_id div 10000 * 10000 + 9999) @ ascii ''/'' @ format_int post_id @
      ascii ''_'') @ replace 47 45 (take 50 h) @ ascii ''.txt''"
  by (simp add: filepath_of_eq directory_of_eq ARTICLES_PATH_def)

lemma filepath_encodable: "fs_encodable (filepath_of post_id h) = fs_encodable (take 50 h)"
proof -
  have "fs_encodable ARTICLES_PATH" "fs_encodable (ascii ''/'')" "fs_encodable (ascii ''-'')"
    "fs_encodable (ascii ''_'')" "fs_encodable (ascii ''.txt'')"
    by (simp_all add: ARTICLES_PATH_def ascii_def fs_encodable_def surrogate_def)
  then show ?thesis
    by (simp add: filepath_parts format_int_encodable replace_encodable)
qed

lemma filepath_nul: "(0 \<in> set (filepath_of post_id h)) = (0 \<in> set (take 50 h))"
proof -
  have "0 \<notin> set ARTICLES_PATH" "0 \<notin> set (ascii ''/'')" "0 \<notin> set (ascii ''-'')"
    "0 \<notin> set (ascii ''_'')" "0 \<notin> set (ascii ''.txt'')"
    by (simp_all add: ARTICLES_PATH_def ascii_def)
  then show ?thesis
    by (simp add: filepath_parts format_int_encodable replace_nul)
qed

lemma chunks_encodable:
  "list_all utf8_encodable (file_chunks r) =
     (utf8_encodable (row_headline r) \<and> utf8_encodable (row_published r) \<and>
      utf8_encodable (row_category r) \<and> utf8_encodable (row_source r) \<and>
      utf8_encodable (row_content r))"
proof -
  have "utf8_encodable (ascii ''Title: '')" "utf8_encodable (ascii ''Published: '')"
    "utf8_encodable (ascii ''Category: '')" "utf8_encodable (ascii ''Source: '')"
    "utf8_encodable [10]" "utf8_encodable [10, 10]"
    by (simp_all add: ascii_def utf8_encodable_def surrogate_def)
  then show ?thesis
    by (simp add: file_chunks_def)
qed

lemma chunks_text: "concat (file_chunks r) = file_text r"
  by (simp add: file_chunks_def file_text_def)

lemma chunks_written:
  "list_all utf8_encodable (file_chunks r) \<Longrightarrow>
   takeWhile utf8_encodable (file_chunks r) = file_chunks r"
  by (simp add: list_all_iff)

text \<open>The persistence block up to the end of the file write.\<close>

lemma persist_written:
  assumes "writable post_id r w"
  shows "persist post_id r w =
     (let w3 = w\<lparr>dirs := insert (directory_of post_id) (dirs w),
                 files := (files w)(filepath_of post_id (row_headline r) \<mapsto> file_text r),
                 trace := trace w @ [Print (SavedArticle post_id)]\<rparr>
      in if \<not> sqlite_int post_id then (Raised OverflowError, w3)
         else if db_locked w then (Raised OperationalError, w3)
         else if post_id \<in> dom (articles w) then (Raised IntegrityError, w3\<lparr>db_locked := True\<rparr>)
         else (Returned, w3\<lparr>articles := (articles w)(post_id \<mapsto> r)\<rparr>))"
proof -
  let ?d = "directory_of post_id"
  let ?f = "filepath_of post_id (row_headline r)"
  from assms have d: "?d \<in> dirs w \<or> ?d \<notin> refused w" and f: "?f \<notin> refused w"
    and e: "fs_encodable ?f" and n: "0 \<notin> set ?f"
    and c: "list_all utf8_encodable (file_chunks r)"
    by (simp_all add: writable_def filepath_encodable filepath_nul chunks_encodable)
  have p: "os_path_join ?d (filename_of post_id (row_headline r)) = ?f"
    by (simp add: filepath_of_def)
  have i: "(if ?d \<notin> dirs w then w\<lparr>dirs := insert ?d (dirs w)\<rparr> else w) =
      w\<lparr>dirs := insert ?d (dirs w)\<rparr>"
    by (simp add: insert_absorb)
  show ?thesis
    unfolding persist_def Let_def p i
    using d f e n by (simp add: chunks_written [OF c] chunks_text emit_def)
qed

lemma persist_new:
  assumes "writable post_id r w" "sqlite_int post_id" "\<not> db_locked w"
    "post_id \<notin> dom (articles w)"
  shows "persist post_id r w =
     (Returned,
      w\<lparr>dirs := insert (directory_of post_id) (dirs w),
        files := (files w)(filepath_of post_id (row_headline r) \<mapsto> file_text r),
        articles := (articles w)(post_id \<mapsto> r),
        trace := trace w @ [Print (SavedArticle post_id)]\<rparr>)"
  using assms(2-4) by (simp add: persist_written [OF assms(1)] Let_def)



lemma persist_overflow:
  assumes "writable post_id r w" "\<not> sqlite_int post_id"
  shows "persist post_id r w =
     (Raised OverflowError,
      w\<lparr>dirs := insert (directory_of post_id) (dirs w),
        files := (files w)(filepath_of post_id (row_headline r) \<mapsto> file_text r),
        trace := trace w @ [Print (SavedArticle post_id)]\<rparr>)"
  using assms(2) by (simp add: persist_written [OF assms(1)] Let_def)


text \<open>Whatever the persistence block does, the table changes at most at the post id.\<close>

lemma persist_articles:
  "articles (snd (persist post_id r w)) = articles w \<or>
   (fst (persist post_id r w) = Returned \<and>
    articles (snd (persist post_id r w)) = (articles w)(post_id \<mapsto> r))"
  by (simp add: persist_def Let_def emit_def)



lemma scrape_fn_persistable:
  "persistable (Response status_code soup) \<Longrightarrow>
   scrape_article_fn post_id (Response status_code soup) w =
     persist post_id (row_of soup) (emit [HttpGet post_id] w)"
  by (auto simp: scrape_article_fn_def extract_category_def row_of_def Let_def
           split: option.splits list.splits)

lemma retry_loop_3:
  "retry_loop net post_id 3 w =
     (case scrape_article_fn post_id (net 3) w of
        (Returned, w') \<Rightarrow> (Returned, w')
      | (Raised e, w') \<Rightarrow> (Raised RetryError, w'))"
  by (subst retry_loop.simps) (simp add: stop_after_attempt_def split: prod.splits outcome.splits)

lemma retry_loop_lt:
  "attempt_number < 3 \<Longrightarrow>
   retry_loop net post_id attempt_number w =
     (case scrape_article_fn post_id (net attempt_number) w of
        (Returned, w') \<Rightarrow> (Returned, w')
      | (Raised e, w') \<Rightarrow>
          retry_loop net post_id (Suc attempt_number)
            (emit [Sleep (wait_exponential 1 4 10 attempt_number)] w'))"
  by (subst retry_loop.simps) (simp add: stop_after_attempt_def split: prod.splits outcome.splits)








section \<open>The retry wrapper unfolded\<close>

lemma retry_loop_1:
  "retry_loop net post_id 1 w =
     (case scrape_article_fn post_id (net 1) w of
        (Returned, w') \<Rightarrow> (Returned, w')
      | (Raised e, w') \<Rightarrow> retry_loop net post_id 2 (emit [Sleep 4] w'))"
  by (subst retry_loop.simps)
     (simp add: stop_after_attempt_def wait_exponential_def del: One_nat_def
           split: prod.splits outcome.splits)

lemma retry_loop_2:
  "retry_loop net post_id 2 w =
     (case scrape_article_fn post_id (net 2) w of
        (Returned, w') \<Rightarrow> (Returned, w')
      | (Raised e, w') \<Rightarrow> retry_loop net post_id 3 (emit [Sleep 4] w'))"
  by (subst retry_loop.simps)
     (simp add: stop_after_attempt_def wait_exponential_def del: One_nat_def
           split: prod.splits outcome.splits)

lemma retry_unfold:
  "scrape_article net post_id w =
     (let a1 = scrape_article_fn post_id (net 1) w in
      case fst a1 of
        Returned \<Rightarrow> a1
      | Raised e1 \<Rightarrow>
          (let a2 = scrape_article_fn post_id (net 2) (emit [Sleep 4] (snd a1)) in
           case fst a2 of
             Returned \<Rightarrow> a2
           | Raised e2 \<Rightarrow>
               (let a3 = scrape_article_fn post_id (net 3) (emit [Sleep 4] (snd a2)) in
                case fst a3 of
                  Returned \<Rightarrow> a3
                | Raised e3 \<Rightarrow> (Raised RetryError, snd a3))))"
proof -
  obtain r1 w1 where a1: "scrape_article_fn post_id (net 1) w = (r1, w1)"
    by (cases "scrape_article_fn post_id (net 1) w")
  obtain r2 w2 where a2: "scrape_article_fn post_id (net 2) (emit [Sleep 4] w1) = (r2, w2)"
    by (cases "scrape_article_fn post_id (net 2) (emit [Sleep 4] w1)")
  obtain r3 w3 where a3: "scrape_article_fn post_id (net 3) (emit [Sleep 4] w2) = (r3, w3)"
    by (cases "scrape_article_fn post_id (net 3) (emit [Sleep 4] w2)")
  show ?thesis
    unfolding scrape_article_def retry_loop_1 a1 Let_def
    by (cases r1; cases r2; cases r3) (simp_all add: retry_loop_2 retry_loop_3 a2 a3)
qed





lemma emit_fields [simp]:
  "dirs (emit es w) = dirs w" "files (emit es w) = files w" "refused (emit es w) = refused w"
  "articles (emit es w) = articles w" "db_locked (emit es w) = db_locked w"
  "trace (emit es w) = trace w @ es"
  by (simp_all add: emit_def)

lemma writable_emit [simp]: "writable post_id r (emit es w) = writable post_id r w"
  by (simp add: writable_def)

text \<open>
  A call of the body on a page that reaches the persistence block and can be written:
  with a new post id, with a post id that the table holds, and with the write lock held.
\<close>

lemma body_new:
  assumes "persistable (Response status_code soup)" "writable post_id (row_of soup) w"
    "sqlite_int post_id" "\<not> db_locked w" "post_id \<notin> dom (articles w)"
  shows "scrape_article_fn post_id (Response status_code soup) w =
     (Returned,
      w\<lparr>dirs := insert (directory_of post_id) (dirs w),
        files := (files w)(filepath_of post_id (row_headline (row_of soup)) \<mapsto>
                   file_text (row_of soup)),
        articles := (articles w)(post_id \<mapsto> row_of soup),
        trace := trace w @ [HttpGet post_id, Print (SavedArticle post_id)]\<rparr>)"
proof -
  have "persist post_id (row_of soup) (emit [HttpGet post_id] w) =
     (Returned,
      (emit [HttpGet post_id] w)\<lparr>dirs := insert (directory_of post_id) (dirs (emit [HttpGet post_id] w)),
        files := (files (emit [HttpGet post_id] w))(filepath_of post_id (row_headline (row_of soup)) \<mapsto>
                   file_text (row_of soup)),
        articles := (articles (emit [HttpGet post_id] w))(post_id \<mapsto> row_of soup),
        trace := trace (emit [HttpGet post_id] w) @ [Print (SavedArticle post_id)]\<rparr>)"
    using assms(2-5) by (intro persist_new) simp_all
  then show ?thesis
    unfolding scrape_fn_persistable [OF assms(1)] by (simp add: emit_def)
qed



lemma body_overflow:
  assumes "persistable (Response status_code soup)" "writable post_id (row_of soup) w"
    "\<not> sqlite_int post_id"
  shows "scrape_article_fn post_id (Response status_code soup) w =
     (Raised OverflowError,
      w\<lparr>dirs := insert (directory_of post_id) (dirs w),
        files := (files w)(filepath_of post_id (row_headline (row_of soup)) \<mapsto>
                   file_text (row_of soup)),
        trace := trace w @ [HttpGet post_id, Print (SavedArticle post_id)]\<rparr>)"
proof -
  have "persist post_id (row_of soup) (emit [HttpGet post_id] w) =
     (Raised OverflowError,
      (emit [HttpGet post_id] w)\<lparr>dirs := insert (directory_of post_id) (dirs (emit [HttpGet post_id] w)),
        files := (files (emit [HttpGet post_id] w))(filepath_of post_id (row_headline (row_of soup)) \<mapsto>
                   file_text (row_of soup)),
        trace := trace (emit [HttpGet post_id] w) @ [Print (SavedArticle post_id)]\<rparr>)"
    using assms(2-3) by (intro persist_overflow) simp_all
  then show ?thesis
    unfolding scrape_fn_persistable [OF assms(1)] by (simp add: emit_def)
qed



lemma persist_keeps_lock: "db_locked w \<Longrightarrow> db_locked (snd (persist post_id r w))"
  by (simp add: persist_def Let_def emit_def)

lemma fn_keeps_lock: "db_locked w \<Longrightarrow> db_locked (snd (scrape_article_fn post_id got w))"
  by (simp add: scrape_article_fn_def Let_def persist_keeps_lock
        split: fetched.splits option.splits sum.splits)


lemma scrape_keeps_lock: "db_locked w \<Longrightarrow> db_locked (snd (scrape_article net post_id w))"
  by (simp add: retry_unfold Let_def fn_keeps_lock del: One_nat_def split: outcome.splits)








section \<open>Single calls of the body\<close>








lemma empty_breadcrumb_fn:
  assumes "status_code \<noteq> 404" "\<not> raise_for_status status_code"
    "headline_tag soup \<noteq> None" "breadcrumb soup = Some []"
  shows "scrape_article_fn post_id (Response status_code soup) w =
     (Raised IndexError, emit [HttpGet post_id] w)"
  using assms by (auto simp: scrape_article_fn_def extract_category_def Let_def)

lemma not_found_once:
  "scrape_article_fn post_id (Response 404 soup) w =
     (Returned, emit [HttpGet post_id, Print (NoContentFound post_id)] w)"
  by (simp add: scrape_article_fn_def emit_def)




section \<open>Steps of the pool\<close>

lemma scraping_update:
  "i < length ts \<Longrightarrow>
   mset (scraping (ts[i := t])) + mset (scraping [ts ! i]) = mset (scraping ts) + mset (scraping [t])"
proof (induction ts arbitrary: i)
  case Nil
  then show ?case by simp
next
  case (Cons a ts)
  show ?case
  proof (cases i)
    case 0
    then show ?thesis by (cases a; cases t) simp_all
  next
    case (Suc j)
    with Cons.prems have "j < length ts" by simp
    from Cons.IH [OF this] Suc show ?thesis by (cases a) simp_all
  qed
qed

lemma crashed_update:
  "i < length ts \<Longrightarrow>
   length (filter crashed (ts[i := t])) + (if crashed (ts ! i) then 1 else 0) =
   length (filter crashed ts) + (if crashed t then 1 else 0)"
proof (induction ts arbitrary: i)
  case Nil
  then show ?case by simp
next
  case (Cons a ts)
  show ?case
  proof (cases i)
    case 0
    then show ?thesis by simp
  next
    case (Suc j)
    with Cons.prems have "j < length ts" by simp
    from Cons.IH [OF this] Suc show ?thesis by simp
  qed
qed

lemma scrape_article_outcome:
  "fst (scrape_article net post_id w) = Returned \<or>
   fst (scrape_article net post_id w) = Raised RetryError"
  by (simp add: retry_unfold Let_def del: One_nat_def split: outcome.splits)

lemma step_length [simp]: "length (threads (worker_step network i s)) = length (threads s)"
  by (simp add: worker_step_def split: thread.splits list.splits prod.splits outcome.splits)

lemma step_ids: "ids_of (worker_step network i s) = ids_of s"
proof (cases "i < length (threads s)")
  case False
  then show ?thesis by (simp add: worker_step_def)
next
  case True
  note u = scraping_update [OF True]
  show ?thesis
  proof (cases "threads s ! i")
    case AtWhile
    with True u [of Finished] u [of AtGet] show ?thesis
      by (simp add: worker_step_def ids_of_def)
  next
    case AtGet
    show ?thesis
    proof (cases "post_queue s")
      case Nil
      with AtGet True show ?thesis by (simp add: worker_step_def)
    next
      case (Cons post_id rest)
      with AtGet True u [of "AtScrape post_id"] show ?thesis
        by (simp add: worker_step_def ids_of_def)
    qed
  next
    case (AtScrape post_id)
    obtain r w' where c: "scrape_article (network post_id) post_id (outside s) = (r, w')"
      by (cases "scrape_article (network post_id) post_id (outside s)")
    show ?thesis
    proof (cases r)
      case Returned
      with AtScrape True c u [of AtWhile] show ?thesis
        by (simp add: worker_step_def ids_of_def)
    next
      case (Raised e)
      with AtScrape True c u [of "Crashed e"] show ?thesis
        by (simp add: worker_step_def ids_of_def)
    qed
  next
    case Finished
    with True show ?thesis by (simp add: worker_step_def)
  next
    case (Crashed e)
    with True show ?thesis by (simp add: worker_step_def)
  qed
qed

lemma run_ids: "ids_of (run network sched s) = ids_of s"
  by (induction sched arbitrary: s) (simp_all add: step_ids)

lemma run_length [simp]: "length (threads (run network sched s)) = length (threads s)"
  by (induction sched arbitrary: s) simp_all

lemma scraping_replicate: "scraping (replicate n AtWhile) = []"
  by (induction n) simp_all

lemma seeded_ids: "ids_of (seeded start_id end_id w) = mset [start_id..end_id]"
  by (simp add: ids_of_def seeded_def scraping_replicate)

lemma step_failed:
  "length (filter failed (handled (worker_step network i s))) + length (filter crashed (threads s)) =
   length (filter failed (handled s)) + length (filter crashed (threads (worker_step network i s)))"
proof (cases "i < length (threads s)")
  case False
  then show ?thesis by (simp add: worker_step_def)
next
  case True
  note u = crashed_update [OF True]
  show ?thesis
  proof (cases "threads s ! i")
    case AtWhile
    with True u [of Finished] u [of AtGet] show ?thesis
      by (simp add: worker_step_def)
  next
    case AtGet
    show ?thesis
    proof (cases "post_queue s")
      case Nil
      with AtGet True show ?thesis by (simp add: worker_step_def)
    next
      case (Cons post_id rest)
      with AtGet True u [of "AtScrape post_id"] show ?thesis
        by (simp add: worker_step_def)
    qed
  next
    case (AtScrape post_id)
    obtain r w' where c: "scrape_article (network post_id) post_id (outside s) = (r, w')"
      by (cases "scrape_article (network post_id) post_id (outside s)")
    show ?thesis
    proof (cases r)
      case Returned
      with AtScrape True c u [of AtWhile] show ?thesis
        by (simp add: worker_step_def)
    next
      case (Raised e)
      with AtScrape True c u [of "Crashed e"] show ?thesis
        by (simp add: worker_step_def)
    qed
  next
    case Finished
    with True show ?thesis by (simp add: worker_step_def)
  next
    case (Crashed e)
    with True show ?thesis by (simp add: worker_step_def)
  qed
qed

lemma run_failed:
  "length (filter failed (handled (run network sched s))) + length (filter crashed (threads s)) =
   length (filter failed (handled s)) + length (filter crashed (threads (run network sched s)))"
proof (induction sched arbitrary: s)
  case Nil
  then show ?case by simp
next
  case (Cons i sched)
  from Cons.IH [of "worker_step network i s"] step_failed [of network i s] show ?case
    by simp
qed

lemma crashed_replicate: "filter crashed (replicate n AtWhile) = []"
  by (induction n) simp_all

lemma seeded_run_failed:
  "length (filter failed (handled (run network sched (seeded start_id end_id w)))) =
   length (filter crashed (threads (run network sched (seeded start_id end_id w))))"
  using run_failed [of network sched "seeded start_id end_id w"]
  by (simp add: seeded_def crashed_replicate)




lemma step_other: "j \<noteq> i \<Longrightarrow> threads (worker_step network i s) ! j = threads s ! j"
  by (simp add: worker_step_def split: thread.splits list.splits prod.splits outcome.splits)




lemma step_finished:
  assumes "Finished \<in> set (threads s) \<longrightarrow> post_queue s = []"
  shows "Finished \<in> set (threads (worker_step network i s)) \<longrightarrow> post_queue (worker_step network i s) = []"
proof (cases "i < length (threads s)")
  case False
  with assms show ?thesis by (simp add: worker_step_def)
next
  case True
  have sub: "set ((threads s)[i := t]) \<subseteq> insert t (set (threads s))" for t
    by (rule set_update_subset_insert)
  show ?thesis
  proof (cases "threads s ! i")
    case AtWhile
    with True assms sub [of AtGet] show ?thesis
      by (auto simp: worker_step_def)
  next
    case AtGet
    show ?thesis
    proof (cases "post_queue s")
      case Nil
      with AtGet True assms show ?thesis by (simp add: worker_step_def)
    next
      case (Cons post_id rest)
      with AtGet True assms sub [of "AtScrape post_id"] show ?thesis
        by (auto simp: worker_step_def)
    qed
  next
    case (AtScrape post_id)
    obtain r w' where c: "scrape_article (network post_id) post_id (outside s) = (r, w')"
      by (cases "scrape_article (network post_id) post_id (outside s)")
    show ?thesis
    proof (cases r)
      case Returned
      with AtScrape True c assms sub [of AtWhile] show ?thesis
        by (auto simp: worker_step_def)
    next
      case (Raised e)
      with AtScrape True c assms sub [of "Crashed e"] show ?thesis
        by (auto simp: worker_step_def)
    qed
  next
    case Finished
    with True assms show ?thesis by (simp add: worker_step_def)
  next
    case (Crashed e)
    with True assms show ?thesis by (simp add: worker_step_def)
  qed
qed

lemma run_finished:
  "Finished \<in> set (threads s) \<longrightarrow> post_queue s = [] \<Longrightarrow>
   Finished \<in> set (threads (run network sched s)) \<longrightarrow> post_queue (run network sched s) = []"
proof (induction sched arbitrary: s)
  case Nil
  then show ?case by simp
next
  case (Cons i sched)
  from Cons.IH [OF step_finished [OF Cons.prems]] show ?case by simp
qed



lemma seeded_length: "length (threads (run network sched (seeded start_id end_id w))) = NUM_WORKERS"
  by (simp add: seeded_def)

lemma mset_distinct_upto:
  assumes "mset xs = mset [a..b]"
  shows "distinct xs" "set xs = {a..b}"
proof -
  from assms have "distinct xs = distinct [a..b]"
    by (rule mset_eq_imp_distinct_iff)
  then show "distinct xs" by simp
  from assms have "set xs = set [a..b]"
    by (rule mset_eq_setD)
  then show "set xs = {a..b}" by simp
qed

lemma no_scraping: "list_all (\<lambda>t. t = Finished) ts \<Longrightarrow> scraping ts = [] \<and> filter crashed ts = []"
  by (induction ts) auto

lemma fn_prints:
  assumes "Print m \<in> set (trace (snd (scrape_article_fn post_id got w)))"
  shows "Print m \<in> set (trace w) \<or> msg_id m = post_id"
proof (cases got)
  case ConnectionFailed
  with assms show ?thesis
    by (auto simp: scrape_article_fn_def)
next
  case (Response status_code soup)
  have p: "trace (snd (persist post_id r w')) = trace w' \<or>
      trace (snd (persist post_id r w')) = trace w' @ [Print (SavedArticle post_id)]" for r w'
    by (simp add: persist_def Let_def emit_def)
  from assms show ?thesis
    unfolding Response scrape_article_fn_def Let_def
    using p [of "\<lparr>row_headline = the (headline_tag soup),
        row_published = (case time_tag soup of Some t \<Rightarrow> t | None \<Rightarrow> ascii ''No Date''),
        row_category = projr (extract_category soup),
        row_source = (case source_tag soup of Some s \<Rightarrow> s | None \<Rightarrow> ascii ''No Source''),
        row_content = join [10] (article_tags soup)\<rparr>" "emit [HttpGet post_id] w"]
    by (auto split: if_splits option.splits sum.splits)
qed

lemma retry_prints:
  assumes "Print m \<in> set (trace (snd (scrape_article net post_id w)))"
  shows "Print m \<in> set (trace w) \<or> msg_id m = post_id"
proof -
  let ?a1 = "scrape_article_fn post_id (net 1) w"
  let ?a2 = "scrape_article_fn post_id (net 2) (emit [Sleep 4] (snd ?a1))"
  let ?a3 = "scrape_article_fn post_id (net 3) (emit [Sleep 4] (snd ?a2))"
  have 1: "Print m \<in> set (trace (snd ?a1)) \<Longrightarrow> ?thesis"
    by (rule fn_prints)
  have 2: "Print m \<in> set (trace (snd ?a2)) \<Longrightarrow> ?thesis"
    using fn_prints [of m post_id "net 2" "emit [Sleep 4] (snd ?a1)"] 1 by auto
  have 3: "Print m \<in> set (trace (snd ?a3)) \<Longrightarrow> ?thesis"
    using fn_prints [of m post_id "net 3" "emit [Sleep 4] (snd ?a2)"] 2 by auto
  have "snd (scrape_article net post_id w) = snd ?a1 \<or>
      snd (scrape_article net post_id w) = snd ?a2 \<or>
      snd (scrape_article net post_id w) = snd ?a3"
    by (simp add: retry_unfold Let_def del: One_nat_def split: outcome.splits)
  with assms 1 2 3 show ?thesis by auto
qed

lemma scraping_mem:
  "i < length ts \<Longrightarrow> ts ! i = AtScrape post_id \<Longrightarrow> post_id \<in> set (scraping ts)"
proof (induction ts arbitrary: i)
  case Nil
  then show ?case by simp
next
  case (Cons a ts)
  show ?case
  proof (cases i)
    case 0
    with Cons.prems show ?thesis by simp
  next
    case (Suc j)
    with Cons.prems have "post_id \<in> set (scraping ts)"
      by (intro Cons.IH [of j]) simp_all
    then show ?thesis by (cases a) simp_all
  qed
qed

lemma step_prints:
  assumes "Print m \<in> set (trace (outside (worker_step network i s)))"
  shows "Print m \<in> set (trace (outside s)) \<or> msg_id m \<in># ids_of s"
proof (cases "i < length (threads s)")
  case False
  with assms show ?thesis by (simp add: worker_step_def)
next
  case True
  show ?thesis
  proof (cases "threads s ! i")
    case (AtScrape post_id)
    from True AtScrape have "post_id \<in> set (scraping (threads s))"
      by (rule scraping_mem)
    then have in_ids: "post_id \<in># ids_of s"
      by (simp add: ids_of_def)
    from True AtScrape have
      "outside (worker_step network i s) = snd (scrape_article (network post_id) post_id (outside s))"
      by (simp add: worker_step_def split: prod.splits outcome.splits)
    with assms retry_prints [of m "network post_id" post_id "outside s"] in_ids
    show ?thesis by auto
  qed (use True assms in \<open>simp_all add: worker_step_def split: if_splits list.splits\<close>)
qed

lemma run_prints:
  "Print m \<in> set (trace (outside (run network sched s))) \<Longrightarrow>
   Print m \<in> set (trace (outside s)) \<or> msg_id m \<in># ids_of s"
proof (induction sched arbitrary: s)
  case Nil
  then show ?case by simp
next
  case (Cons i sched)
  from Cons.prems have "Print m \<in> set (trace (outside (run network sched (worker_step network i s))))"
    by simp
  from Cons.IH [OF this] step_prints [of m network i s] show ?case
    by (auto simp: step_ids)
qed

lemma step_handled:
  assumes "\<forall>p \<in> set (handled s). snd p = Returned \<or> snd p = Raised RetryError"
  shows "\<forall>p \<in> set (handled (worker_step network i s)). snd p = Returned \<or> snd p = Raised RetryError"
proof (cases "i < length (threads s)")
  case False
  with assms show ?thesis by (simp add: worker_step_def)
next
  case True
  show ?thesis
  proof (cases "threads s ! i")
    case (AtScrape post_id)
    obtain r w' where c: "scrape_article (network post_id) post_id (outside s) = (r, w')"
      by (cases "scrape_article (network post_id) post_id (outside s)")
    with scrape_article_outcome [of "network post_id" post_id "outside s"]
    have "r = Returned \<or> r = Raised RetryError" by simp
    with True AtScrape c assms show ?thesis
      by (auto simp: worker_step_def)
  qed (use True assms in \<open>simp_all add: worker_step_def split: if_splits list.splits\<close>)
qed

lemma run_handled:
  "\<forall>p \<in> set (handled s). snd p = Returned \<or> snd p = Raised RetryError \<Longrightarrow>
   \<forall>p \<in> set (handled (run network sched s)). snd p = Returned \<or> snd p = Raised RetryError"
proof (induction sched arbitrary: s)
  case Nil
  then show ?case by simp
next
  case (Cons i sched)
  from Cons.IH [OF step_handled [OF Cons.prems]] show ?case by simp
qed

lemma first_failed:
  assumes "\<forall>p \<in> set hs. snd p = Returned \<or> snd p = Raised RetryError" "filter failed hs \<noteq> []"
  shows "(case filter failed hs of [] \<Rightarrow> Some Returned | (_, r) # _ \<Rightarrow> Some r) =
     Some (Raised RetryError)"
proof -
  from assms(2) obtain x r rest where f: "filter failed hs = (x, r) # rest"
    by (cases "filter failed hs") auto
  then have "(x, r) \<in> set (filter failed hs)" by simp
  then have "(x, r) \<in> set hs" "failed (x, r)" by simp_all
  with assms(1) have "r = Raised RetryError" by (cases r) auto
  with f show ?thesis by simp
qed

lemma step_queue_empty: "post_queue s = [] \<Longrightarrow> post_queue (worker_step network j s) = []"
  by (simp add: worker_step_def split: thread.splits prod.splits outcome.splits)

lemma blocked_step: "blocked s i \<Longrightarrow> blocked (worker_step network j s) i"
proof (cases "j = i")
  case True
  assume "blocked s i"
  then show ?thesis
    using True by (simp add: blocked_def worker_step_def)
next
  case False
  assume "blocked s i"
  then show ?thesis
    using False by (simp add: blocked_def step_other step_queue_empty)
qed

lemma blocked_run: "blocked s i \<Longrightarrow> blocked (run network sched s) i"
  by (induction sched arbitrary: s) (simp_all add: blocked_step)

lemma blocked_never_returns:
  assumes "blocked s i"
  shows "scrape_all_articles (run network sched s) = None"
proof -
  from assms have "blocked (run network sched s) i"
    by (rule blocked_run)
  then have "i < length (threads (run network sched s))" "\<not> ended (threads (run network sched s) ! i)"
    by (simp_all add: blocked_def)
  then have "\<not> list_all ended (threads (run network sched s))"
    by (auto simp: list_all_length simp del: run_length)
  then show ?thesis
    by (simp add: scrape_all_articles_def)
qed

section \<open>The example runs\<close>

lemma persistable_B: "persistable (Response 200 page_B)"
  by (simp add: page_B_def raise_for_status_def strip_def isspace_def ascii_def)

lemma scrape_down:
  "scrape_article (network_down post_id) post_id w =
     (Raised RetryError,
      emit [HttpGet post_id, Print (ErrorInScraping post_id), Sleep 4,
            HttpGet post_id, Print (ErrorInScraping post_id), Sleep 4,
            HttpGet post_id, Print (ErrorInScraping post_id)] w)"
  by (simp add: retry_unfold network_down_def scrape_article_fn_def emit_def del: One_nat_def)

lemma row_headline_B: "row_headline (row_of page_B) = ascii ''X''"
  by (simp add: row_of_def page_B_def)

lemma writable_B: "refused w = {} \<Longrightarrow> writable post_id (row_of page_B) w"
  by (simp add: writable_def row_of_def page_B_def fs_encodable_def utf8_encodable_def
        surrogate_def ascii_def)

lemma lock_absorb: "db_locked w \<Longrightarrow> w\<lparr>db_locked := True\<rparr> = w"
  by simp


lemma scrape_B_new:
  assumes "articles w post_id = None" "refused w = {}" "sqlite_int post_id" "\<not> db_locked w"
  shows "scrape_article (network_B post_id) post_id w =
     (Returned,
      w\<lparr>dirs := insert (directory_of post_id) (dirs w),
        files := (files w)(filepath_of post_id (ascii ''X'') \<mapsto> file_text (row_of page_B)),
        articles := (articles w)(post_id \<mapsto> row_of page_B),
        trace := trace w @ [HttpGet post_id, Print (SavedArticle post_id)]\<rparr>)"
proof -
  have n: "post_id \<notin> dom (articles w)"
    using assms(1) by auto
  have a1: "scrape_article_fn post_id (Response 200 page_B) w =
     (Returned,
      w\<lparr>dirs := insert (directory_of post_id) (dirs w),
        files := (files w)(filepath_of post_id (ascii ''X'') \<mapsto> file_text (row_of page_B)),
        articles := (articles w)(post_id \<mapsto> row_of page_B),
        trace := trace w @ [HttpGet post_id, Print (SavedArticle post_id)]\<rparr>)"
    using body_new [OF persistable_B writable_B [OF assms(2)] assms(3,4) n]
    by (simp add: row_headline_B)
  have m: "network_B post_id = (\<lambda>n. Response 200 page_B)"
    by (rule ext) (simp add: network_B_def)
  show ?thesis
    unfolding m retry_unfold Let_def a1 by simp
qed

lemma scrape_404:
  "scrape_article (network_404 post_id) post_id w =
     (Returned, emit [HttpGet post_id, Print (NoContentFound post_id)] w)"
  by (simp add: retry_unfold network_404_def not_found_once del: One_nat_def)

lemma down_run:
  "threads (run network_down each_thread_once (seeded 1 6 empty_world)) =
     [Crashed RetryError, Crashed RetryError, Crashed RetryError, Crashed RetryError,
      Crashed RetryError] \<and>
   post_queue (run network_down each_thread_once (seeded 1 6 empty_world)) = [6] \<and>
   handled (run network_down each_thread_once (seeded 1 6 empty_world)) =
     [(1, Raised RetryError), (2, Raised RetryError), (3, Raised RetryError),
      (4, Raised RetryError), (5, Raised RetryError)]"
  by (simp add: each_thread_once_def seeded_def NUM_WORKERS_def worker_step_def scrape_down
        upto.simps eval_nat_numeral)

lemma down_two_steps:
  "threads (run network_down [0, 0] (seeded 1 6 empty_world)) =
     [AtScrape 1, AtWhile, AtWhile, AtWhile, AtWhile] \<and>
   fst (scrape_article (network_down 1) 1
         (outside (run network_down [0, 0] (seeded 1 6 empty_world)))) = Raised RetryError"
  by (simp add: seeded_def NUM_WORKERS_def worker_step_def scrape_down upto.simps eval_nat_numeral)

lemma all_404_run:
  "threads (run network_404 first_thread_all (seeded 1 2 empty_world)) =
     [Finished, Finished, Finished, Finished, Finished] \<and>
   handled (run network_404 first_thread_all (seeded 1 2 empty_world)) =
     [(1, Returned), (2, Returned)]"
  by (simp add: first_thread_all_def seeded_def NUM_WORKERS_def worker_step_def scrape_404
        upto.simps eval_nat_numeral)

lemma one_404_run:
  "threads (run network_404 first_thread_one (seeded 1 1 empty_world)) =
     [Finished, Finished, Finished, Finished, Finished] \<and>
   handled (run network_404 first_thread_one (seeded 1 1 empty_world)) = [(1, Returned)] \<and>
   articles (outside (run network_404 first_thread_one (seeded 1 1 empty_world))) 1 = None \<and>
   trace (outside (run network_404 first_thread_one (seeded 1 1 empty_world))) =
     [HttpGet 1, Print (NoContentFound 1)]"
  by (simp add: first_thread_one_def seeded_def NUM_WORKERS_def worker_step_def scrape_404
        empty_world_def emit_def upto.simps eval_nat_numeral)

lemma one_B_run:
  "threads (run network_B first_thread_one (seeded 1 1 empty_world)) =
     [Finished, Finished, Finished, Finished, Finished] \<and>
   handled (run network_B first_thread_one (seeded 1 1 empty_world)) = [(1, Returned)] \<and>
   articles (outside (run network_B first_thread_one (seeded 1 1 empty_world))) 1 =
     Some (row_of page_B) \<and>
   trace (outside (run network_B first_thread_one (seeded 1 1 empty_world))) =
     [HttpGet 1, Print (SavedArticle 1)]"
  by (simp add: first_thread_one_def seeded_def NUM_WORKERS_def worker_step_def scrape_B_new
        empty_world_def sqlite_int_def upto.simps eval_nat_numeral)



text \<open>
  The test of the queue and the get are two steps.  With one post id queued, threads 0
  and 1 can both find the queue non-empty; thread 0 takes the post id and thread 1 then
  waits in \<^verbatim>\<open>get\<close> for ever, so that the call of \<^verbatim>\<open>scrape_all_articles\<close> never returns.
\<close>

lemma stale_test_blocks_get: "blocked (run network [0, 1, 0] (seeded 1 1 w)) 1"
  by (simp add: blocked_def seeded_def NUM_WORKERS_def worker_step_def upto.simps eval_nat_numeral)

section \<open>The claims\<close>












text \<open>
  With the network down every item fails.  After every thread has taken one post id, all
  threads have ended, the call has raised \<^verbatim>\<open>RetryError\<close>, and post 6 has never left the
  queue.
\<close>

theorem crashed_workers_leave_ids_queued:
  "list_all ended (threads (run network_down each_thread_once (seeded 1 6 empty_world))) \<and>
   post_queue (run network_down each_thread_once (seeded 1 6 empty_world)) = [6] \<and>
   map fst (handled (run network_down each_thread_once (seeded 1 6 empty_world))) =
     [1, 2, 3, 4, 5] \<and>
   scrape_all_articles (run network_down each_thread_once (seeded 1 6 empty_world)) =
     Some (Raised RetryError)"
  using down_run by (simp add: scrape_all_articles_def)

text \<open>
  C5 (amended).  In every state of every run over the seeded range, each post id of the
  range is in exactly one place: in the queue, held by one thread, or handled with one
  outcome; none is handed to two threads or handled twice.  When all threads have
  returned from \<^verbatim>\<open>worker\<close>, the queue is empty, no post id is held, and every post id of
  the range has been handled exactly once by a call that returned.
\<close>

theorem ids_handled_at_most_once:
  "let s = run network sched (seeded start_id end_id w) in
     mset (post_queue s) + mset (scraping (threads s)) + mset (map fst (handled s)) =
       mset [start_id..end_id] \<and>
     distinct (post_queue s @ scraping (threads s) @ map fst (handled s)) \<and>
     (list_all (\<lambda>t. t = Finished) (threads s) \<longrightarrow>
        post_queue s = [] \<and> scraping (threads s) = [] \<and>
        distinct (map fst (handled s)) \<and> set (map fst (handled s)) = {start_id..end_id} \<and>
        filter failed (handled s) = [])"
proof -
  let ?s = "run network sched (seeded start_id end_id w)"
  have m: "mset (post_queue ?s) + mset (scraping (threads ?s)) + mset (map fst (handled ?s)) =
      mset [start_id..end_id]"
    using run_ids [of network sched "seeded start_id end_id w"] seeded_ids [of start_id end_id w]
    by (simp add: ids_of_def)
  then have "mset (post_queue ?s @ scraping (threads ?s) @ map fst (handled ?s)) =
      mset [start_id..end_id]"
    by (simp add: ac_simps)
  then have d: "distinct (post_queue ?s @ scraping (threads ?s) @ map fst (handled ?s))"
    by (rule mset_distinct_upto)
  have fin: "post_queue ?s = [] \<and> scraping (threads ?s) = [] \<and>
        distinct (map fst (handled ?s)) \<and> set (map fst (handled ?s)) = {start_id..end_id} \<and>
        filter failed (handled ?s) = []"
    if a: "list_all (\<lambda>t. t = Finished) (threads ?s)"
  proof -
    have "threads ?s \<noteq> []"
      using seeded_length [of network sched start_id end_id w]
      by (auto simp: NUM_WORKERS_def simp del: run_length)
    with a have "Finished \<in> set (threads ?s)"
      by (cases "threads ?s") simp_all
    moreover have "Finished \<in> set (threads ?s) \<longrightarrow> post_queue ?s = []"
      by (rule run_finished) (simp add: seeded_def)
    ultimately have q: "post_queue ?s = []" by blast
    from a have sc: "scraping (threads ?s) = []" "filter crashed (threads ?s) = []"
      using no_scraping by blast+
    from m q sc have h: "mset (map fst (handled ?s)) = mset [start_id..end_id]"
      by simp
    from sc(2) seeded_run_failed [of network sched start_id end_id w]
    have "filter failed (handled ?s) = []" by simp
    with q sc(1) mset_distinct_upto [OF h] show ?thesis by simp
  qed
  show ?thesis
    unfolding Let_def using m d fin by blast
qed

theorem ids_handled_at_most_once_witness:
  "post_queue (run network_404 first_thread_all (seeded 1 2 empty_world)) = [] \<and>
   set (map fst (handled (run network_404 first_thread_all (seeded 1 2 empty_world)))) = {1..2} \<and>
   distinct (map fst (handled (run network_404 first_thread_all (seeded 1 2 empty_world)))) \<and>
   handled (run network_404 first_thread_all (seeded 1 2 empty_world)) =
     [(1, Returned), (2, Returned)]"
proof -
  let ?s = "run network_404 first_thread_all (seeded 1 2 empty_world)"
  have f: "list_all (\<lambda>t. t = Finished) (threads ?s)"
    using all_404_run by simp
  from ids_handled_at_most_once [of network_404 first_thread_all 1 2 empty_world,
      unfolded Let_def] f
  have "post_queue ?s = [] \<and> distinct (map fst (handled ?s)) \<and>
      set (map fst (handled ?s)) = {1..2}"
    by blast
  then show ?thesis
    using all_404_run by simp
qed







text \<open>
  Two runs over the single post 1, one answered with 404 and one with a page that is
  stored: the call returns the same value, \<^verbatim>\<open>None\<close>, in both, and the last line printed is
  the line of the item.
\<close>

theorem same_return_for_different_outcomes:
  "scrape_all_articles (run network_404 first_thread_one (seeded 1 1 empty_world)) = Some Returned \<and>
   scrape_all_articles (run network_B first_thread_one (seeded 1 1 empty_world)) = Some Returned \<and>
   articles (outside (run network_404 first_thread_one (seeded 1 1 empty_world))) 1 = None \<and>
   articles (outside (run network_B first_thread_one (seeded 1 1 empty_world))) 1 =
     Some (row_of page_B) \<and>
   trace (outside (run network_404 first_thread_one (seeded 1 1 empty_world))) =
     [HttpGet 1, Print (NoContentFound 1)] \<and>
   trace (outside (run network_B first_thread_one (seeded 1 1 empty_world))) =
     [HttpGet 1, Print (SavedArticle 1)]"
  using one_404_run one_B_run by (simp add: scrape_all_articles_def)

text \<open>
  C8 (amended).  The call of \<^verbatim>\<open>scrape_all_articles\<close> returns no counts.  It has not
  returned while a thread has not ended; once all threads have ended it returns \<^verbatim>\<open>None\<close>
  when no item failed and raises \<^verbatim>\<open>RetryError\<close> otherwise.  Every line it has printed is a
  line of one item, for a post id of the range.
\<close>

theorem no_aggregate_counts:
  "let s = run network sched (seeded start_id end_id w) in
     (scrape_all_articles s = None \<longleftrightarrow> \<not> list_all ended (threads s)) \<and>
     (list_all ended (threads s) \<and> filter failed (handled s) = [] \<longrightarrow>
        scrape_all_articles s = Some Returned) \<and>
     (list_all ended (threads s) \<and> filter failed (handled s) \<noteq> [] \<longrightarrow>
        scrape_all_articles s = Some (Raised RetryError)) \<and>
     (\<forall>m. Print m \<in> set (trace (outside s)) \<longrightarrow>
        Print m \<in> set (trace w) \<or> (start_id \<le> msg_id m \<and> msg_id m \<le> end_id))"
proof -
  let ?s = "run network sched (seeded start_id end_id w)"
  have h: "\<forall>p \<in> set (handled ?s). snd p = Returned \<or> snd p = Raised RetryError"
    by (rule run_handled) (simp add: seeded_def)
  have a: "list_all ended (threads ?s) \<and> filter failed (handled ?s) = [] \<longrightarrow>
      scrape_all_articles ?s = Some Returned"
    by (simp add: scrape_all_articles_def)
  have b: "list_all ended (threads ?s) \<and> filter failed (handled ?s) \<noteq> [] \<longrightarrow>
      scrape_all_articles ?s = Some (Raised RetryError)"
    using first_failed [OF h] by (simp add: scrape_all_articles_def)
  have n: "scrape_all_articles ?s = None \<longleftrightarrow> \<not> list_all ended (threads ?s)"
    by (simp add: scrape_all_articles_def split: list.splits)
  have p: "Print m \<in> set (trace w) \<or> (start_id \<le> msg_id m \<and> msg_id m \<le> end_id)"
    if "Print m \<in> set (trace (outside ?s))" for m
  proof -
    from run_prints [OF that] have "Print m \<in> set (trace w) \<or> msg_id m \<in># mset [start_id..end_id]"
      by (simp add: seeded_ids) (simp add: seeded_def)
    then show ?thesis by simp
  qed
  show ?thesis
    unfolding Let_def using n a b p by blast
qed

theorem no_aggregate_counts_witness:
  "scrape_all_articles (run network_B first_thread_one (seeded 1 1 empty_world)) = Some Returned \<and>
   scrape_all_articles (run network_down each_thread_once (seeded 1 6 empty_world)) =
     Some (Raised RetryError) \<and>
   scrape_all_articles (run network_down [0, 0] (seeded 1 6 empty_world)) = None \<and>
   Print (SavedArticle 1) \<in>
     set (trace (outside (run network_B first_thread_one (seeded 1 1 empty_world))))"
proof -
  let ?b = "run network_B first_thread_one (seeded 1 1 empty_world)"
  let ?d = "run network_down each_thread_once (seeded 1 6 empty_world)"
  let ?t = "run network_down [0, 0] (seeded 1 6 empty_world)"
  have b: "list_all ended (threads ?b) \<and> filter failed (handled ?b) = []"
    using one_B_run by simp
  have d: "list_all ended (threads ?d) \<and> filter failed (handled ?d) \<noteq> []"
    using down_run by simp
  have t: "\<not> list_all ended (threads ?t)"
    using down_two_steps by simp
  have p: "Print (SavedArticle 1) \<in> set (trace (outside ?b))"
    using one_B_run by simp
  show ?thesis
    using no_aggregate_counts [of network_B first_thread_one 1 1 empty_world, unfolded Let_def]
      no_aggregate_counts [of network_down each_thread_once 1 6 empty_world, unfolded Let_def]
      no_aggregate_counts [of network_down "[0, 0]" 1 6 empty_world, unfolded Let_def]
      b d t p
    by simp
qed

text \<open>
  A page with an empty breadcrumb list and no headline element: the call returns at the
  headline test and never indexes the breadcrumb.
\<close>

theorem no_headline_empty_breadcrumb_returns:
  "scrape_article_fn 1 (Response 200 page_no_headline) empty_world =
     (Returned, empty_world\<lparr>trace := [HttpGet 1, Print (NoHeadlineOrContent 1)]\<rparr>) \<and>
   breadcrumb page_no_headline = Some [] \<and>
   scrape_article (\<lambda>n. Response 200 page_no_headline) 1 empty_world =
     (Returned, empty_world\<lparr>trace := [HttpGet 1, Print (NoHeadlineOrContent 1)]\<rparr>)"
  by (simp add: retry_unfold scrape_article_fn_def page_no_headline_def empty_world_def
        raise_for_status_def emit_def del: One_nat_def)

text \<open>
  C9 (amended).  Empty breadcrumb.  For a page that is fetched with a status that is neither
  404 nor an error status, has a headline element and has a breadcrumb list without
  items, the body does not fall back to \<open>No Category\<close>: it raises \<^verbatim>\<open>IndexError\<close> and has
  written and printed nothing.  The retry wrapper fetches such a page three times and
  then ends the item with \<^verbatim>\<open>RetryError\<close>.
\<close>

theorem empty_breadcrumb_raises:
  assumes "status_code \<noteq> 404" "\<not> raise_for_status status_code"
    "headline_tag soup \<noteq> None" "breadcrumb soup = Some []"
  shows "scrape_article_fn post_id (Response status_code soup) w =
     (Raised IndexError, emit [HttpGet post_id] w) \<and>
   scrape_article (\<lambda>n. Response status_code soup) post_id w =
     (Raised RetryError,
      emit [HttpGet post_id, Sleep 4, HttpGet post_id, Sleep 4, HttpGet post_id] w)"
  by (simp add: retry_unfold empty_breadcrumb_fn [OF assms] emit_def del: One_nat_def)

theorem empty_breadcrumb_raises_witness:
  "scrape_article_fn 7 (Response 200 page_empty_breadcrumb) empty_world =
     (Raised IndexError, empty_world\<lparr>trace := [HttpGet 7]\<rparr>) \<and>
   scrape_article (\<lambda>n. Response 200 page_empty_breadcrumb) 7 empty_world =
     (Raised RetryError,
      empty_world\<lparr>trace := [HttpGet 7, Sleep 4, HttpGet 7, Sleep 4, HttpGet 7]\<rparr>)"
  using empty_breadcrumb_raises [of 200 page_empty_breadcrumb 7 empty_world]
  by (simp add: page_empty_breadcrumb_def raise_for_status_def emit_def empty_world_def)




end
